theory Spec2Isabelle
  imports Main
begin

section \<open>The converter \<^verbatim>\<open>puttylog2dieharder.py\<close>\<close>

text \<open>
  The program is Python 2: it reads lines of hexadecimal text, writes a fixed header and
  then one decimal integer per 8-character piece of every line.  Strings are Python 2
  \<^verbatim>\<open>str\<close> values, that is byte strings, modelled as \<^typ>\<open>string\<close>.  The output sink
  is modelled by the text written to it so far.  An exception is a value of type
  \<open>error\<close>; a function that may raise returns a sum, and the loops return the raised
  exception (if any) together with the sink as it is at that moment.
\<close>

subsection \<open>Characters and the built-ins the program calls\<close>

text \<open>
  The whitespace of \<^verbatim>\<open>str.strip()\<close> and of \<^verbatim>\<open>int()\<close> on a Python 2 byte string is C's
  \<^verbatim>\<open>isspace\<close> in the C locale: tab, line feed, vertical tab, form feed, carriage return
  and space.
\<close>

definition isspace :: "char \<Rightarrow> bool" where
  "isspace c = (c \<in> {CHR 0x09, CHR 0x0A, CHR 0x0B, CHR 0x0C, CHR 0x0D, CHR 0x20})"

text \<open>\<^verbatim>\<open>s.strip()\<close>: whitespace is removed at both ends of the string.\<close>

definition strip :: "string \<Rightarrow> string" where
  "strip s = rev (dropWhile isspace (rev (dropWhile isspace s)))"

text \<open>
  The digit table of CPython's integer parser (\<^verbatim>\<open>_PyLong_DigitValue\<close>): decimal digits
  count 0 to 9, letters of either case 10 to 35, every other byte 37.
\<close>

definition py_digit_value :: "char \<Rightarrow> nat" where
  "py_digit_value c =
     (let k = (of_char c :: nat) in
      if 48 \<le> k \<and> k \<le> 57 then k - 48
      else if 97 \<le> k \<and> k \<le> 122 then k - 87
      else if 65 \<le> k \<and> k \<le> 90 then k - 55
      else 37)"

definition base16_digit :: "char \<Rightarrow> bool" where
  "base16_digit c = (py_digit_value c < 16)"

datatype error =
    InvalidLiteral string  \<comment> \<open>\<^verbatim>\<open>ValueError: invalid literal for int() with base 16: <the string>\<close>\<close>
  | ZeroStep  \<comment> \<open>\<^verbatim>\<open>ValueError: range() step argument must not be zero\<close>\<close>

text \<open>
  \<^verbatim>\<open>int(s, 16)\<close> on a byte string, after CPython 2's \<^verbatim>\<open>int_new\<close> and
  \<^verbatim>\<open>PyInt_FromString\<close>: leading whitespace is skipped, then one optional sign, then
  whitespace again (the unsigned scanner skips it once more), then an optional \<^verbatim>\<open>0x\<close> or
  \<^verbatim>\<open>0X\<close> when a base-16 digit follows it, then the digits, accumulated most significant
  first, then trailing whitespace.  A NUL byte in the string, no digit at all, or anything
  left over, raises \<^verbatim>\<open>ValueError\<close>.  The message names the whole string when it holds
  a NUL byte, and otherwise the string from its first character that is not whitespace,
  cut after 200 bytes.  Python integers are unbounded.
\<close>

definition skip_sign :: "string \<Rightarrow> bool \<times> string" where
  "skip_sign s =
     (case s of
        [] \<Rightarrow> (False, [])
      | c # r \<Rightarrow> if c = CHR ''-'' then (True, r) else if c = CHR ''+'' then (False, r) else (False, s))"

definition skip_0x :: "string \<Rightarrow> string" where
  "skip_0x s =
     (case s of
        z # x # d # r \<Rightarrow>
          if z = CHR ''0'' \<and> (x = CHR ''x'' \<or> x = CHR ''X'') \<and> base16_digit d then d # r else s
      | _ \<Rightarrow> s)"

definition accumulate16 :: "string \<Rightarrow> int" where
  "accumulate16 ds = foldl (\<lambda>result c. result * 16 + int (py_digit_value c)) 0 ds"

definition named_in_error :: "string \<Rightarrow> string" where
  "named_in_error s = (if CHR 0x00 \<in> set s then s else take 200 (dropWhile isspace s))"

definition py_int16 :: "string \<Rightarrow> error + int" where
  "py_int16 s =
     (let (negative, s1) = skip_sign (dropWhile isspace s);
          s2 = skip_0x (dropWhile isspace s1);
          ds = takeWhile base16_digit s2;
          rest = dropWhile isspace (dropWhile base16_digit s2)
      in if CHR 0x00 \<in> set s \<or> ds = [] \<or> rest \<noteq> [] then Inl (InvalidLiteral (named_in_error s))
         else Inr (if negative then - accumulate16 ds else accumulate16 ds))"

text \<open>\<^verbatim>\<open>str(i)\<close> of an integer: a minus sign for a negative value, then the decimal digits.\<close>

definition digit_chr :: "int \<Rightarrow> char" where
  "digit_chr d = char_of (48 + d)"

function decimal :: "int \<Rightarrow> string \<Rightarrow> string" where
  "decimal n acc =
     (if n < 10 then digit_chr n # acc else decimal (n div 10) (digit_chr (n mod 10) # acc))"
  by pat_completeness auto
termination
  by (relation "measure (\<lambda>(n, acc). nat n)") auto

declare decimal.simps [simp del]

definition str_int :: "int \<Rightarrow> string" where
  "str_int i = (if i < 0 then CHR ''-'' # decimal (- i) [] else decimal i [])"

text \<open>\<^verbatim>\<open>print >> output, x\<close> writes the text of \<^verbatim>\<open>x\<close> and a line feed to the sink.\<close>

definition print_to :: "string \<Rightarrow> string \<Rightarrow> string" where
  "print_to output text = output @ text @ [CHR 0x0A]"

subsection \<open>\<^verbatim>\<open>split_by_n\<close>\<close>

text \<open>
  \<^verbatim>\<open>range(start, stop, n)\<close> for a positive step, and the slice \<^verbatim>\<open>line[i:j]\<close> for
  \<open>0 \<le> i \<le> j\<close>, which Python clips to the string.
\<close>

function py_range :: "nat \<Rightarrow> nat \<Rightarrow> nat \<Rightarrow> nat list" where
  "py_range i stop n = (if n = 0 \<or> stop \<le> i then [] else i # py_range (i + n) stop n)"
  by pat_completeness auto
termination
  by (relation "measure (\<lambda>(i, stop, n). stop - i)") auto

declare py_range.simps [simp del]

definition slice :: "string \<Rightarrow> nat \<Rightarrow> nat \<Rightarrow> string" where
  "slice line i j = take (j - i) (drop i line)"

text \<open>
  \<^verbatim>\<open>return [line[i:i+n] for i in range(0, len(line), n)]\<close>.  A zero step makes \<^verbatim>\<open>range\<close>
  raise; a negative step from 0 up to a length gives the empty range.
\<close>

definition split_by_n :: "string \<Rightarrow> int \<Rightarrow> error + string list" where
  "split_by_n line n =
     (if n = 0 then Inl ZeroStep
      else if n < 0 then Inr []
      else Inr (map (\<lambda>i. slice line i (i + nat n)) (py_range 0 (length line) (nat n))))"

subsection \<open>\<^verbatim>\<open>main\<close>\<close>

definition header_text :: string where
  "header_text =
     ''#==================================================================\<newline>'' @
     ''# generator ryangeiger  seed = 0\<newline>'' @
     ''#==================================================================\<newline>'' @
     ''type: d\<newline>'' @
     ''numbit: 32\<newline>''"

text \<open>The inner loop: \<^verbatim>\<open>for word in ...: print >> output, int(word,16)\<close>.\<close>

fun convert_words :: "string list \<Rightarrow> string \<Rightarrow> error option \<times> string" where
  "convert_words [] output = (None, output)"
| "convert_words (word # rest) output =
     (case py_int16 word of
        Inl e \<Rightarrow> (Some e, output)
      | Inr v \<Rightarrow> convert_words rest (print_to output (str_int v)))"

text \<open>The outer loop: \<^verbatim>\<open>for line in input: for word in split_by_n(line.strip(), 8): ...\<close>.\<close>

fun convert_lines :: "string list \<Rightarrow> string \<Rightarrow> error option \<times> string" where
  "convert_lines [] output = (None, output)"
| "convert_lines (line # rest) output =
     (case split_by_n (strip line) 8 of
        Inl e \<Rightarrow> (Some e, output)
      | Inr ws \<Rightarrow>
          (case convert_words ws output of
             (Some e, output') \<Rightarrow> (Some e, output')
           | (None, output') \<Rightarrow> convert_lines rest output'))"

definition main :: "string list \<Rightarrow> string \<Rightarrow> error option \<times> string" where
  "main input output = convert_lines input (print_to output header_text)"

text \<open>
  The script itself, \<^verbatim>\<open>main(sys.stdin, sys.stdout)\<close>, started on an empty standard output:
  the interpreter ends with status 0 when \<^verbatim>\<open>main\<close> returns and with status 1 when an
  exception leaves it.
\<close>

definition script :: "string list \<Rightarrow> nat \<times> string" where
  "script stdin =
     (case main stdin [] of
        (None, stdout) \<Rightarrow> (0, stdout)
      | (Some e, stdout) \<Rightarrow> (1, stdout))"

subsection \<open>Notions used to state the properties\<close>

text \<open>
  What the sink receives for the header (the \<^verbatim>\<open>print\<close> adds a line feed to the literal,
  which already ends with one), and what it receives for a sequence of integers.
\<close>

definition header_block :: string where
  "header_block = print_to [] header_text"

definition int_lines :: "int list \<Rightarrow> string" where
  "int_lines vs = concat (map (\<lambda>v. str_int v @ [CHR 0x0A]) vs)"

text \<open>
  The pieces the loops go through: those of one line, and those of the whole input in the
  order of processing.
\<close>

definition chunks_of_line :: "string \<Rightarrow> string list" where
  "chunks_of_line line = (case split_by_n (strip line) 8 of Inr ws \<Rightarrow> ws | Inl e \<Rightarrow> [])"

definition chunks_of_input :: "string list \<Rightarrow> string list" where
  "chunks_of_input input = concat (map chunks_of_line input)"

text \<open>
  The hexadecimal alphabet of the specification, the value of a digit in it (letters of
  either case count alike) and the value of a digit string read in base 16.
\<close>

definition is_hex_digit :: "char \<Rightarrow> bool" where
  "is_hex_digit c = (c \<in> set ''0123456789abcdefABCDEF'')"

definition hex_digit_value :: "char \<Rightarrow> int" where
  "hex_digit_value c =
     (case map_of (zip ''0123456789abcdefABCDEF''
                       [0, 1, 2, 3, 4, 5, 6, 7, 8, 9, 10, 11, 12, 13, 14, 15, 10, 11, 12, 13, 14, 15]) c of
        Some v \<Rightarrow> v
      | None \<Rightarrow> 0)"

fun hex_value :: "string \<Rightarrow> int" where
  "hex_value [] = 0"
| "hex_value (c # cs) = hex_digit_value c * 16 ^ length cs + hex_value cs"

text \<open>The upper-case form of a character, for the statement on letter case.\<close>

definition upper :: "char \<Rightarrow> char" where
  "upper c =
     (case map_of (zip ''abcdefghijklmnopqrstuvwxyz'' ''ABCDEFGHIJKLMNOPQRSTUVWXYZ'') c of
        Some u \<Rightarrow> u
      | None \<Rightarrow> c)"

text \<open>The decimal digits, and the value of a string of them, to read the printed integers back.\<close>

definition is_dec_digit :: "char \<Rightarrow> bool" where
  "is_dec_digit c = (c \<in> set ''0123456789'')"

definition dec_value :: "string \<Rightarrow> int" where
  "dec_value s = foldl (\<lambda>a c. a * 10 + (of_char c - 48)) 0 s"







text \<open>
  Stripping as the specification words it, at the end of the line only, to be compared with
  \<^const>\<open>strip\<close>.
\<close>

definition strip_trailing :: "string \<Rightarrow> string" where
  "strip_trailing s = rev (dropWhile isspace (rev s))"

section \<open>Properties\<close>

subsection \<open>The pieces of a line\<close>



lemma concat_slices:
  "0 < n \<Longrightarrow> concat (map (\<lambda>i. slice s i (i + n)) (py_range k (length s) n)) = drop k s"
proof (induction k "length s" n rule: py_range.induct)
  case (1 i n)
  show ?case
  proof (cases "length s \<le> i")
    case True
    then show ?thesis by (simp add: py_range.simps[of i "length s" n])
  next
    case False
    with 1 have "concat (map (\<lambda>i. slice s i (i + n)) (py_range (i + n) (length s) n)) = drop (i + n) s"
      by simp
    then show ?thesis using False 1(2)
      by (simp add: py_range.simps[of i "length s" n] slice_def take_add add.commute)
         (metis append_take_drop_id drop_drop add.commute)
  qed
qed

lemma lengths_slices:
  "0 < n \<Longrightarrow> w \<in> set (butlast (map (\<lambda>i. slice s i (i + n)) (py_range k (length s) n))) \<Longrightarrow>
   length w = n"
proof (induction k "length s" n rule: py_range.induct)
  case (1 i n)
  show ?case
  proof (cases "length s \<le> i")
    case True
    with 1(3) show ?thesis by (simp add: py_range.simps[of i "length s" n])
  next
    case False
    show ?thesis
    proof (cases "py_range (i + n) (length s) n = []")
      case True
      with 1(3) False 1(2) show ?thesis by (simp add: py_range.simps[of i "length s" n])
    next
      case ne: False
      then have "i + n < length s"
        using 1(2) by (simp add: py_range.simps[of "i + n" "length s" n] split: if_splits)
      with 1 False ne show ?thesis
        by (auto simp add: py_range.simps[of i "length s" n] slice_def)
    qed
  qed
qed

lemma nonempty_slices:
  "0 < n \<Longrightarrow> w \<in> set (map (\<lambda>i. slice s i (i + n)) (py_range k (length s) n)) \<Longrightarrow>
   w \<noteq> [] \<and> length w \<le> n"
proof (induction k "length s" n rule: py_range.induct)
  case (1 i n)
  show ?case
  proof (cases "length s \<le> i")
    case True
    with 1(3) show ?thesis by (simp add: py_range.simps[of i "length s" n])
  next
    case False
    with 1 show ?thesis
      by (auto simp add: py_range.simps[of i "length s" n] slice_def)
  qed
qed

lemma split_by_8:
  "split_by_n s 8 = Inr (map (\<lambda>i. slice s i (i + 8)) (py_range 0 (length s) 8))"
  by (simp add: split_by_n_def)

lemma split_by_8_concat: "split_by_n s 8 = Inr ws \<Longrightarrow> concat ws = s"
  using concat_slices[of 8 s 0] by (auto simp: split_by_8)


lemma split_by_8_full: "split_by_n s 8 = Inr ws \<Longrightarrow> w \<in> set (butlast ws) \<Longrightarrow> length w = 8"
  using lengths_slices[of 8 w s 0] by (auto simp: split_by_8)

lemma split_by_8_chunk:
  "split_by_n s 8 = Inr ws \<Longrightarrow> w \<in> set ws \<Longrightarrow> w \<noteq> [] \<and> length w \<le> 8"
  using nonempty_slices[of 8 w s 0] by (auto simp: split_by_8)

lemma split_by_8_empty: "split_by_n [] 8 = Inr []"
  by (simp add: split_by_8 py_range.simps[of 0 0 8])

lemma split_by_8_nonempty: "split_by_n s 8 = Inr ws \<Longrightarrow> s \<noteq> [] \<Longrightarrow> ws \<noteq> []"
  using split_by_8_concat[of s ws] by auto

subsection \<open>Hexadecimal digits\<close>

lemma hex_table:
  "list_all (\<lambda>c. base16_digit c \<and> int (py_digit_value c) = hex_digit_value c \<and> \<not> isspace c
      \<and> c \<noteq> CHR ''-'' \<and> c \<noteq> CHR ''+'' \<and> c \<noteq> CHR ''x'' \<and> c \<noteq> CHR ''X''
      \<and> 0 \<le> hex_digit_value c \<and> hex_digit_value c \<le> 15
      \<and> is_hex_digit (upper c) \<and> hex_digit_value (upper c) = hex_digit_value c)
     ''0123456789abcdefABCDEF''"
  by code_simp

lemma hex_facts:
  assumes "is_hex_digit c"
  shows "base16_digit c" and "int (py_digit_value c) = hex_digit_value c" and "\<not> isspace c"
    and "c \<noteq> CHR ''-'' \<and> c \<noteq> CHR ''+'' \<and> c \<noteq> CHR ''x'' \<and> c \<noteq> CHR ''X''"
    and "0 \<le> hex_digit_value c \<and> hex_digit_value c \<le> 15"
    and "is_hex_digit (upper c) \<and> hex_digit_value (upper c) = hex_digit_value c"
  using assms hex_table unfolding list_all_iff is_hex_digit_def by blast+

lemma hex_is_base16: "is_hex_digit c \<Longrightarrow> base16_digit c"
  by (rule hex_facts(1))

lemma hex_codes:
  "is_hex_digit c \<longleftrightarrow>
   (of_char c :: nat) \<in> {48,49,50,51,52,53,54,55,56,57,97,98,99,100,101,102,65,66,67,68,69,70}"
proof -
  have "is_hex_digit c \<longleftrightarrow> (of_char c :: nat) \<in> of_char ` set ''0123456789abcdefABCDEF''"
    unfolding is_hex_digit_def by (rule inj_image_mem_iff[symmetric]) (rule injI, simp)
  then show ?thesis by simp
qed

lemma base16_is_hex: "base16_digit c \<Longrightarrow> is_hex_digit c"
  unfolding hex_codes base16_digit_def py_digit_value_def Let_def
  by (simp split: if_splits) arith+

lemma base16_iff_hex: "base16_digit c \<longleftrightarrow> is_hex_digit c"
  using hex_is_base16 base16_is_hex by blast

lemma hex_digit_value_eq: "is_hex_digit c \<Longrightarrow> int (py_digit_value c) = hex_digit_value c"
  by (rule hex_facts(2))

lemma hex_digit_bounds: "0 \<le> hex_digit_value c \<and> hex_digit_value c \<le> 15"
proof (cases "is_hex_digit c")
  case True
  then show ?thesis by (rule hex_facts(5))
next
  case False
  then show ?thesis by (simp add: is_hex_digit_def hex_digit_value_def)
qed

lemma hex_not_space: "is_hex_digit c \<Longrightarrow> \<not> isspace c"
  by (rule hex_facts(3))

lemma hex_not_sign:
  "is_hex_digit c \<Longrightarrow> c \<noteq> CHR ''-'' \<and> c \<noteq> CHR ''+'' \<and> c \<noteq> CHR ''x'' \<and> c \<noteq> CHR ''X''"
  by (rule hex_facts(4))

lemma upper_hex:
  "is_hex_digit c \<Longrightarrow> is_hex_digit (upper c) \<and> hex_digit_value (upper c) = hex_digit_value c"
  by (rule hex_facts(6))

lemma accumulate_foldl:
  "list_all is_hex_digit ds \<Longrightarrow>
   foldl (\<lambda>result c. result * 16 + int (py_digit_value c)) a ds = a * 16 ^ length ds + hex_value ds"
  by (induction ds arbitrary: a) (simp_all add: hex_digit_value_eq algebra_simps)

lemma accumulate16_hex: "list_all is_hex_digit ds \<Longrightarrow> accumulate16 ds = hex_value ds"
  by (simp add: accumulate16_def accumulate_foldl)

lemma hex_value_bounds: "0 \<le> hex_value w \<and> hex_value w < 16 ^ length w"
proof (induction w)
  case Nil
  show ?case by simp
next
  case (Cons c cs)
  have b: "0 \<le> hex_digit_value c" "hex_digit_value c \<le> 15" using hex_digit_bounds[of c] by simp_all
  then have m: "hex_digit_value c * 16 ^ length cs \<le> 15 * 16 ^ length cs"
    by (intro mult_right_mono) simp_all
  define p :: int where "p = 16 ^ length cs"
  have z: "0 \<le> hex_digit_value c * p" using b by (simp add: p_def)
  from Cons have "0 \<le> hex_value cs" "hex_value cs < p" by (simp_all add: p_def)
  moreover from m have "hex_digit_value c * p \<le> 15 * p" by (simp only: p_def)
  ultimately have "0 \<le> hex_digit_value c * p + hex_value cs"
    and "hex_digit_value c * p + hex_value cs < 16 * p" using z by linarith+
  then show ?case by (simp add: p_def)
qed

lemma hex_value_upper: "list_all is_hex_digit w \<Longrightarrow> hex_value (map upper w) = hex_value w"
  by (induction w) (simp_all add: upper_hex)

lemma py_int16_hex:
  assumes "w \<noteq> []" and "list_all is_hex_digit w"
  shows "py_int16 w = Inr (hex_value w)"
proof -
  from assms obtain c r where w: "w = c # r" by (cases w) auto
  with assms have c: "is_hex_digit c" by simp
  have all16: "list_all base16_digit w" using assms(2) by (simp add: list_all_iff base16_iff_hex)
  have 1: "dropWhile isspace w = w" using c w hex_not_space by simp
  have 2: "skip_sign w = (False, w)" using c w hex_not_sign by (auto simp: skip_sign_def)
  have 3: "skip_0x w = w"
  proof (cases r)
    case Nil
    then show ?thesis by (simp add: skip_0x_def w)
  next
    case (Cons x r')
    with assms(2) w have "is_hex_digit x" by simp
    then show ?thesis using hex_not_sign[of x] Cons by (auto simp: skip_0x_def w split: list.splits)
  qed
  have 4: "takeWhile base16_digit w = w" "dropWhile base16_digit w = []"
    using all16 by (simp_all add: list_all_iff)
  have "\<not> is_hex_digit CHR 0x00" by (simp add: is_hex_digit_def)
  with assms(2) have 5: "CHR 0x00 \<notin> set w" unfolding list_all_iff by blast
  show ?thesis using assms(1) 5 by (simp add: py_int16_def 1 2 3 4 accumulate16_hex assms(2))
qed

subsection \<open>Stripping\<close>

lemma dropWhile_all: "list_all P a \<Longrightarrow> dropWhile P (a @ m) = dropWhile P m"
  by (induction a) simp_all

lemma strip_core:
  assumes "list_all isspace a" and "list_all isspace b"
    and "m = [] \<or> (\<not> isspace (hd m) \<and> \<not> isspace (last m))"
  shows "strip (a @ m @ b) = m"
proof (cases "m = []")
  case True
  have d: "dropWhile isspace (a @ b) = []"
    using assms(1,2) by (auto simp: dropWhile_eq_Nil_conv list_all_iff)
  have "strip (a @ b) = []" unfolding strip_def d by simp
  with True show ?thesis by simp
next
  case False
  with assms(3) have h: "\<not> isspace (hd m)" and l: "\<not> isspace (last m)" by simp_all
  have "dropWhile isspace (m @ b) = m @ b" using False h by (cases m) simp_all
  then have f: "dropWhile isspace (a @ m @ b) = m @ b" using assms(1) by (simp add: dropWhile_all)
  have "dropWhile isspace (rev m) = rev m" using False l by (cases "rev m") (simp_all add: last_rev[symmetric] hd_rev)
  moreover have "list_all isspace (rev b)" using assms(2) by (simp add: list_all_iff)
  ultimately have "dropWhile isspace (rev b @ rev m) = rev m" by (simp add: dropWhile_all)
  with f show ?thesis by (simp add: strip_def)
qed


subsection \<open>Printed integers\<close>

lemma digit_chr_table: "map digit_chr [0, 1, 2, 3, 4, 5, 6, 7, 8, 9] = ''0123456789''"
  by code_simp

lemma digit_chr_cases: "0 \<le> d \<Longrightarrow> d < 10 \<Longrightarrow> d \<in> {0, 1, 2, 3, 4, 5, 6, 7, 8, 9::int}"
  by simp arith

lemma digit_chr_digit: "0 \<le> d \<Longrightarrow> d < 10 \<Longrightarrow> is_dec_digit (digit_chr d)"
proof -
  assume "0 \<le> d" "d < 10"
  then have "d \<in> {0, 1, 2, 3, 4, 5, 6, 7, 8, 9::int}" by (rule digit_chr_cases)
  then show ?thesis using digit_chr_table unfolding is_dec_digit_def by (elim insertE emptyE) simp_all
qed

lemma digit_chr_code: "0 \<le> d \<Longrightarrow> d < 10 \<Longrightarrow> of_char (digit_chr d) = 48 + d"
proof -
  assume "0 \<le> d" "d < 10"
  then have "d \<in> {0, 1, 2, 3, 4, 5, 6, 7, 8, 9::int}" by (rule digit_chr_cases)
  then show ?thesis using digit_chr_table by (elim insertE emptyE) simp_all
qed

lemma digit_chr_zero: "0 < d \<Longrightarrow> d < 10 \<Longrightarrow> digit_chr d \<noteq> CHR ''0''"
proof -
  assume p: "0 < d" "d < 10"
  then have "d \<in> {0, 1, 2, 3, 4, 5, 6, 7, 8, 9::int}" by (intro digit_chr_cases) simp_all
  moreover from p have "d \<noteq> 0" by simp
  ultimately show ?thesis using digit_chr_table by (elim insertE emptyE) simp_all
qed

lemma decimal_small: "n < 10 \<Longrightarrow> decimal n acc = digit_chr n # acc"
  by (simp add: decimal.simps[of n])

lemma decimal_large: "\<not> n < 10 \<Longrightarrow> decimal n acc = decimal (n div 10) (digit_chr (n mod 10) # acc)"
  by (simp add: decimal.simps[of n])

lemma decimal_chars:
  "0 \<le> n \<Longrightarrow> list_all is_dec_digit acc \<Longrightarrow> list_all is_dec_digit (decimal n acc)"
proof (induction n acc rule: decimal.induct)
  case (1 n acc)
  show ?case
  proof (cases "n < 10")
    case True
    have "is_dec_digit (digit_chr n)" using 1(2) True by (rule digit_chr_digit)
    then show ?thesis using True 1(3) by (simp add: decimal_small)
  next
    case False
    have "is_dec_digit (digit_chr (n mod 10))" by (rule digit_chr_digit) simp_all
    with 1(3) have "list_all is_dec_digit (digit_chr (n mod 10) # acc)" by simp
    moreover from 1(2) have "0 \<le> n div 10" by simp
    ultimately have "list_all is_dec_digit (decimal (n div 10) (digit_chr (n mod 10) # acc))"
      using False by (intro 1(1))
    then show ?thesis by (simp only: decimal_large[OF False])
  qed
qed

lemma decimal_hd: "0 < n \<Longrightarrow> hd (decimal n acc) \<noteq> CHR ''0''"
proof (induction n acc rule: decimal.induct)
  case (1 n acc)
  show ?case
  proof (cases "n < 10")
    case True
    have "digit_chr n \<noteq> CHR ''0''" using 1(2) True by (rule digit_chr_zero)
    then show ?thesis using True by (simp add: decimal_small)
  next
    case False
    then have "0 < n div 10" by simp
    with False have "hd (decimal (n div 10) (digit_chr (n mod 10) # acc)) \<noteq> CHR ''0''"
      by (intro 1(1))
    then show ?thesis unfolding decimal_large[OF False] .
  qed
qed

lemma decimal_value:
  "0 \<le> n \<Longrightarrow>
   foldl (\<lambda>a c. a * 10 + (of_char c - 48)) 0 (decimal n acc) =
   foldl (\<lambda>a c. a * 10 + (of_char c - 48)) n acc"
proof (induction n acc rule: decimal.induct)
  case (1 n acc)
  show ?case
  proof (cases "n < 10")
    case True
    with 1(2) show ?thesis by (simp add: decimal_small digit_chr_code)
  next
    case False
    have m: "of_char (digit_chr (n mod 10)) = 48 + n mod 10" by (rule digit_chr_code) simp_all
    from 1(2) have "0 \<le> n div 10" by simp
    with False have "foldl (\<lambda>a c. a * 10 + (of_char c - 48)) 0 (decimal (n div 10) (digit_chr (n mod 10) # acc))
        = foldl (\<lambda>a c. a * 10 + (of_char c - 48)) (n div 10) (digit_chr (n mod 10) # acc)"
      by (intro 1(1))
    also have "\<dots> = foldl (\<lambda>a c. a * 10 + (of_char c - 48)) n acc" by (simp add: m)
    finally show ?thesis by (simp only: decimal_large[OF False])
  qed
qed

lemma str_int_nonneg:
  assumes "0 \<le> v"
  shows "list_all is_dec_digit (str_int v)" and "dec_value (str_int v) = v"
    and "str_int v = ''0'' \<or> hd (str_int v) \<noteq> CHR ''0''"
proof -
  from assms have s: "str_int v = decimal v []" by (simp add: str_int_def)
  show "list_all is_dec_digit (str_int v)" using decimal_chars[OF assms, of "[]"] by (simp add: s)
  show "dec_value (str_int v) = v" using decimal_value[OF assms, of "[]"] by (simp add: s dec_value_def)
  show "str_int v = ''0'' \<or> hd (str_int v) \<noteq> CHR ''0''"
  proof (cases "v = 0")
    case True
    have "decimal 0 [] = [digit_chr 0]" by (simp add: decimal_small)
    moreover have "digit_chr 0 = CHR ''0''" using digit_chr_table by simp
    ultimately have "decimal 0 [] = ''0''" by simp
    with True show ?thesis unfolding s by simp
  next
    case False
    with assms have "0 < v" by simp
    then show ?thesis using decimal_hd by (simp add: s)
  qed
qed

lemma str_int_chars: "list_all (\<lambda>c. is_dec_digit c \<or> c = CHR ''-'') (str_int v)"
proof (cases "v < 0")
  case True
  then have "list_all is_dec_digit (decimal (- v) [])" by (intro decimal_chars) simp_all
  with True show ?thesis by (simp add: str_int_def list_all_iff)
next
  case False
  then have "list_all is_dec_digit (decimal v [])" by (intro decimal_chars) simp_all
  with False show ?thesis by (simp add: str_int_def list_all_iff)
qed

lemma int_lines_chars:
  "list_all (\<lambda>c. is_dec_digit c \<or> c = CHR ''-'' \<or> c = CHR 0x0A) (int_lines vs)"
proof (induction vs)
  case Nil
  show ?case by (simp add: int_lines_def)
next
  case (Cons v vs)
  have "list_all (\<lambda>c. is_dec_digit c \<or> c = CHR ''-'' \<or> c = CHR 0x0A) (str_int v)"
    using str_int_chars[of v] unfolding list_all_iff by blast
  with Cons show ?case by (simp add: int_lines_def)
qed

lemma int_lines_no_hash: "CHR ''#'' \<notin> set (int_lines vs)"
proof
  assume "CHR ''#'' \<in> set (int_lines vs)"
  with int_lines_chars[of vs] have "is_dec_digit CHR ''#'' \<or> CHR ''#'' = CHR ''-'' \<or> CHR ''#'' = CHR 0x0A"
    unfolding list_all_iff by blast
  then show False by (simp add: is_dec_digit_def)
qed

lemma int_lines_append: "int_lines (a @ b) = int_lines a @ int_lines b"
  by (simp add: int_lines_def)

subsection \<open>What \<^verbatim>\<open>int\<close> accepts\<close>









lemma py_int16_unfold:
  "skip_sign (dropWhile isspace w) = (negative, s1) \<Longrightarrow> s2 = skip_0x (dropWhile isspace s1) \<Longrightarrow>
   py_int16 w =
     (if CHR 0x00 \<in> set w \<or> takeWhile base16_digit s2 = []
         \<or> dropWhile isspace (dropWhile base16_digit s2) \<noteq> []
      then Inl (InvalidLiteral (named_in_error w))
      else Inr (if negative then - accumulate16 (takeWhile base16_digit s2)
                else accumulate16 (takeWhile base16_digit s2)))"
  by (simp add: py_int16_def Let_def)


lemma py_int16_error: "py_int16 w = Inl e \<Longrightarrow> e = InvalidLiteral (named_in_error w)"
proof -
  assume a: "py_int16 w = Inl e"
  obtain negative s1 where s: "skip_sign (dropWhile isspace w) = (negative, s1)"
    by (cases "skip_sign (dropWhile isspace w)")
  define s2 where "s2 = skip_0x (dropWhile isspace s1)"
  from a show ?thesis unfolding py_int16_unfold[OF s s2_def] by (simp split: if_splits)
qed

subsection \<open>The loops\<close>

lemma print_header: "print_to out header_text = out @ header_block"
  by (simp add: print_to_def header_block_def)

lemma int_lines_Cons: "int_lines (v # vs) = str_int v @ CHR 0x0A # int_lines vs"
  by (simp add: int_lines_def)

lemma convert_words_values:
  "map py_int16 ws = map Inr vs \<Longrightarrow> convert_words ws out = (None, out @ int_lines vs)"
proof (induction ws arbitrary: vs out)
  case Nil
  then show ?case by (simp add: int_lines_def)
next
  case (Cons w ws)
  then obtain v vs' where vs: "vs = v # vs'" and w: "py_int16 w = Inr v"
    and r: "map py_int16 ws = map Inr vs'"
    by (cases vs) auto
  from Cons.IH[OF r] show ?case by (simp add: w vs print_to_def int_lines_Cons)
qed

lemma convert_words_append:
  "convert_words (a @ b) out =
     (case convert_words a out of
        (None, out') \<Rightarrow> convert_words b out'
      | (Some e, out') \<Rightarrow> (Some e, out'))"
  by (induction a arbitrary: out) (simp_all split: sum.splits)

lemma convert_words_fail:
  "map py_int16 ws1 = map Inr vs \<Longrightarrow> py_int16 w = Inl e \<Longrightarrow>
   convert_words (ws1 @ w # ws2) out = (Some e, out @ int_lines vs)"
  by (simp add: convert_words_append convert_words_values)

lemma chunks_of_line_eq: "split_by_n (strip line) 8 = Inr (chunks_of_line line)"
  by (simp add: chunks_of_line_def split_by_8)

lemma chunks_of_input_Cons:
  "chunks_of_input (line # rest) = chunks_of_line line @ chunks_of_input rest"
  by (simp add: chunks_of_input_def)

lemma chunks_of_input_append:
  "chunks_of_input (a @ b) = chunks_of_input a @ chunks_of_input b"
  by (simp add: chunks_of_input_def)

lemma convert_lines_flat: "convert_lines input out = convert_words (chunks_of_input input) out"
proof (induction input arbitrary: out)
  case Nil
  show ?case by (simp add: chunks_of_input_def)
next
  case (Cons line rest)
  show ?case
  proof (cases "convert_words (chunks_of_line line) out")
    case (Pair r out')
    then show ?thesis
      by (cases r) (simp_all add: chunks_of_input_Cons chunks_of_line_eq convert_words_append Cons.IH)
  qed
qed

lemma main_flat: "main input out = convert_words (chunks_of_input input) (out @ header_block)"
  by (simp add: main_def print_header convert_lines_flat)

lemma convert_words_shape: "\<exists>vs. snd (convert_words ws out) = out @ int_lines vs"
proof (induction ws arbitrary: out)
  case Nil
  have "snd (convert_words [] out) = out @ int_lines []" by (simp add: int_lines_def)
  then show ?case by blast
next
  case (Cons w ws)
  show ?case
  proof (cases "py_int16 w")
    case (Inl e)
    then have "snd (convert_words (w # ws) out) = out @ int_lines []" by (simp add: int_lines_def)
    then show ?thesis by blast
  next
    case (Inr v)
    from Cons[of "print_to out (str_int v)"] obtain vs
      where "snd (convert_words ws (print_to out (str_int v))) = print_to out (str_int v) @ int_lines vs"
      by blast
    then have "snd (convert_words (w # ws) out) = out @ int_lines (v # vs)"
      by (simp add: Inr print_to_def int_lines_Cons)
    then show ?thesis by blast
  qed
qed

lemma chunks_nonempty: "w \<in> set (chunks_of_input input) \<Longrightarrow> w \<noteq> [] \<and> length w \<le> 8"
proof -
  assume "w \<in> set (chunks_of_input input)"
  then obtain line where "w \<in> set (chunks_of_line line)" by (auto simp: chunks_of_input_def)
  with chunks_of_line_eq[of line] show ?thesis by (rule split_by_8_chunk)
qed

lemma chunks_of_hex_line:
  "list_all is_hex_digit (strip line) \<Longrightarrow> w \<in> set (chunks_of_line line) \<Longrightarrow> list_all is_hex_digit w"
proof -
  assume h: "list_all is_hex_digit (strip line)" and w: "w \<in> set (chunks_of_line line)"
  have "concat (chunks_of_line line) = strip line" using chunks_of_line_eq by (rule split_by_8_concat)
  with w have "set w \<subseteq> set (strip line)" by (metis UN_upper set_concat)
  with h show ?thesis unfolding list_all_iff by blast
qed


lemma hex_chunks_values:
  "\<forall>line\<in>set input. list_all is_hex_digit (strip line) \<Longrightarrow>
   map py_int16 (chunks_of_input input) = map Inr (map hex_value (chunks_of_input input))"
proof -
  assume h: "\<forall>line\<in>set input. list_all is_hex_digit (strip line)"
  have "py_int16 w = Inr (hex_value w)" if w: "w \<in> set (chunks_of_input input)" for w
  proof -
    from w obtain line where l: "line \<in> set input" and wl: "w \<in> set (chunks_of_line line)"
      by (auto simp: chunks_of_input_def)
    from h l have "list_all is_hex_digit (strip line)" by blast
    then have "list_all is_hex_digit w" using wl by (rule chunks_of_hex_line)
    moreover from w have "w \<noteq> []" using chunks_nonempty by blast
    ultimately show ?thesis by (intro py_int16_hex)
  qed
  then show ?thesis by simp
qed

lemma rev_dropWhile_split: "xs = rev (dropWhile P (rev xs)) @ rev (takeWhile P (rev xs))"
proof -
  have "rev (takeWhile P (rev xs) @ dropWhile P (rev xs)) = rev (rev xs)"
    by (simp only: takeWhile_dropWhile_id)
  then show ?thesis by (simp only: rev_append rev_rev_ident)
qed

lemma strip_suffix: "dropWhile isspace line = strip line @ rev (takeWhile isspace (rev (dropWhile isspace line)))"
  unfolding strip_def by (rule rev_dropWhile_split)

lemma strip_decompose:
  "\<exists>a b. line = a @ strip line @ b \<and> list_all isspace a \<and> list_all isspace b"
proof -
  define a where "a = takeWhile isspace line"
  define b where "b = rev (takeWhile isspace (rev (dropWhile isspace line)))"
  have "line = a @ dropWhile isspace line" by (simp add: a_def)
  also have "dropWhile isspace line = strip line @ b" unfolding b_def by (rule strip_suffix)
  finally have l: "line = a @ strip line @ b" .
  have sa: "list_all isspace a"
    unfolding a_def list_all_iff using set_takeWhileD[of _ isspace line] by blast
  have sb: "list_all isspace b"
    unfolding b_def list_all_iff using set_takeWhileD[of _ isspace "rev (dropWhile isspace line)"]
    by auto
  from l sa sb show ?thesis by blast
qed

lemma strip_ends:
  "strip line = [] \<or> (\<not> isspace (hd (strip line)) \<and> \<not> isspace (last (strip line)))"
proof (cases "strip line = []")
  case True
  then show ?thesis by simp
next
  case False
  define r where "r = dropWhile isspace line"
  have s: "strip line = rev (dropWhile isspace (rev r))" by (simp add: strip_def r_def)
  from False s have ne: "dropWhile isspace (rev r) \<noteq> []" by simp
  then have "\<not> isspace (hd (dropWhile isspace (rev r)))" by (rule hd_dropWhile)
  then have l: "\<not> isspace (last (strip line))" using ne by (simp add: s last_rev)
  from False s have "r \<noteq> []" by auto
  then have nr: "\<not> isspace (hd r)" unfolding r_def by (rule hd_dropWhile)
  have "r = strip line @ rev (takeWhile isspace (rev r))" unfolding r_def by (rule strip_suffix)
  then have "hd r = hd (strip line)" using False by (metis hd_append2)
  with nr l show ?thesis by simp
qed

lemma strip_idem: "strip (strip line) = strip line"
  using strip_core[of "[]" "[]" "strip line"] strip_ends[of line] by simp

lemma chunks_of_line_strip: "chunks_of_line (strip line) = chunks_of_line line"
  by (simp add: chunks_of_line_def strip_idem)

subsection \<open>The literals \<^verbatim>\<open>int\<close> reads\<close>

















subsection \<open>The claims\<close>

text \<open>
  Claim C1.  When every line of the input, once stripped, consists of hexadecimal digits,
  \<^verbatim>\<open>main\<close> raises nothing and writes, after the header, one line per piece, in the order of
  the lines and of the pieces within a line, holding the decimal text of the value of the
  piece read in base 16.  The pieces of a line are consecutive pieces of 8 characters of the
  stripped line, the last of 1 to 8 characters.  Letter case does not change the value.
\<close>

theorem main_emits_hex_values:
  assumes "\<forall>line\<in>set input. list_all is_hex_digit (strip line)"
  shows "main input out = (None, out @ header_block @ int_lines (map hex_value (chunks_of_input input)))
    \<and> chunks_of_input input = concat (map chunks_of_line input)
    \<and> (\<forall>line\<in>set input.
          split_by_n (strip line) 8 = Inr (chunks_of_line line)
          \<and> concat (chunks_of_line line) = strip line
          \<and> (\<forall>w\<in>set (butlast (chunks_of_line line)). length w = 8)
          \<and> (\<forall>w\<in>set (chunks_of_line line). 1 \<le> length w \<and> length w \<le> 8
                \<and> py_int16 w = Inr (hex_value w)
                \<and> py_int16 (map upper w) = Inr (hex_value w)))"
proof -
  have "convert_words (chunks_of_input input) (out @ header_block) =
      (None, (out @ header_block) @ int_lines (map hex_value (chunks_of_input input)))"
    using hex_chunks_values[OF assms] by (rule convert_words_values)
  then have m: "main input out =
      (None, out @ header_block @ int_lines (map hex_value (chunks_of_input input)))"
    by (simp add: main_flat)
  have l: "split_by_n (strip line) 8 = Inr (chunks_of_line line)
          \<and> concat (chunks_of_line line) = strip line
          \<and> (\<forall>w\<in>set (butlast (chunks_of_line line)). length w = 8)
          \<and> (\<forall>w\<in>set (chunks_of_line line). 1 \<le> length w \<and> length w \<le> 8
                \<and> py_int16 w = Inr (hex_value w)
                \<and> py_int16 (map upper w) = Inr (hex_value w))" if line: "line \<in> set input" for line
  proof -
    note e = chunks_of_line_eq[of line]
    from assms line have hx: "list_all is_hex_digit (strip line)" by blast
    have c: "concat (chunks_of_line line) = strip line" using e by (rule split_by_8_concat)
    have f: "\<forall>w\<in>set (butlast (chunks_of_line line)). length w = 8" using e split_by_8_full by blast
    have p: "1 \<le> length w \<and> length w \<le> 8 \<and> py_int16 w = Inr (hex_value w)
        \<and> py_int16 (map upper w) = Inr (hex_value w)" if w: "w \<in> set (chunks_of_line line)" for w
    proof -
      from e w have n: "w \<noteq> [] \<and> length w \<le> 8" by (rule split_by_8_chunk)
      from hx w have h: "list_all is_hex_digit w" by (rule chunks_of_hex_line)
      then have hu: "list_all is_hex_digit (map upper w)" using upper_hex by (simp add: list_all_iff)
      from n h have "py_int16 w = Inr (hex_value w)" by (intro py_int16_hex) simp_all
      moreover from n hu have "py_int16 (map upper w) = Inr (hex_value (map upper w))"
        by (intro py_int16_hex) simp_all
      moreover from n have "1 \<le> length w" by (cases w) simp_all
      ultimately show ?thesis using n h by (simp add: hex_value_upper)
    qed
    from e c f p show ?thesis by blast
  qed
  from m l show ?thesis by (simp add: chunks_of_input_def)
qed

theorem main_emits_hex_values_witness:
  "list_all (\<lambda>line. list_all is_hex_digit (strip line))
     [''0000000A\<newline>'', ''FFFFFFFF\<newline>'', ''ABC\<newline>'', ''abcdef0123\<newline>'']
   \<and> main [''0000000A\<newline>'', ''FFFFFFFF\<newline>'', ''ABC\<newline>'', ''abcdef0123\<newline>''] [] =
       (None, header_block @ ''10\<newline>4294967295\<newline>2748\<newline>2882400001\<newline>35\<newline>'')
   \<and> py_int16 ''0000000A'' = Inr 10 \<and> py_int16 ''FFFFFFFF'' = Inr 4294967295
   \<and> py_int16 ''ABC'' = Inr 2748 \<and> py_int16 ''abc'' = Inr 2748"
proof -
  have a: "list_all (\<lambda>line. list_all is_hex_digit (strip line))
     [''0000000A\<newline>'', ''FFFFFFFF\<newline>'', ''ABC\<newline>'', ''abcdef0123\<newline>'']"
    by code_simp
  then have h: "\<forall>line\<in>set [''0000000A\<newline>'', ''FFFFFFFF\<newline>'', ''ABC\<newline>'', ''abcdef0123\<newline>''].
      list_all is_hex_digit (strip line)"
    by (simp only: list_all_iff)
  have v: "int_lines (map hex_value (chunks_of_input
        [''0000000A\<newline>'', ''FFFFFFFF\<newline>'', ''ABC\<newline>'', ''abcdef0123\<newline>''])) =
      ''10\<newline>4294967295\<newline>2748\<newline>2882400001\<newline>35\<newline>''"
    by code_simp
  have p: "py_int16 ''0000000A'' = Inr 10 \<and> py_int16 ''FFFFFFFF'' = Inr 4294967295
      \<and> py_int16 ''ABC'' = Inr 2748 \<and> py_int16 ''abc'' = Inr 2748"
    by code_simp
  have m: "main [''0000000A\<newline>'', ''FFFFFFFF\<newline>'', ''ABC\<newline>'', ''abcdef0123\<newline>''] [] =
       (None, header_block @ ''10\<newline>4294967295\<newline>2748\<newline>2882400001\<newline>35\<newline>'')"
    using main_emits_hex_values[OF h, of "[]"] v by simp
  from a m p show ?thesis by (intro conjI) simp_all
qed



text \<open>
  Claim C3.  Whatever the input, the empty input included, and whether or not the run
  fails later, what \<^verbatim>\<open>main\<close> writes starts with the header block, verbatim: the banner,
  the generator line with seed 0, \<^verbatim>\<open>type: d\<close>, \<^verbatim>\<open>numbit: 32\<close> and a blank line.  All that
  follows is lines of integers, in which no \<^verbatim>\<open>#\<close> occurs, so the header is written once.
\<close>

theorem header_written_once_first:
  "header_block =
     ''#==================================================================\<newline># generator ryangeiger  seed = 0\<newline>#==================================================================\<newline>type: d\<newline>numbit: 32\<newline>\<newline>''
   \<and> (\<exists>vs. snd (main input out) = out @ header_block @ int_lines vs
          \<and> CHR ''#'' \<notin> set (int_lines vs))
   \<and> main [] out = (None, out @ header_block)"
proof -
  have h: "header_block =
     ''#==================================================================\<newline># generator ryangeiger  seed = 0\<newline>#==================================================================\<newline>type: d\<newline>numbit: 32\<newline>\<newline>''"
    by (simp add: header_block_def header_text_def print_to_def)
  obtain vs where "snd (main input out) = (out @ header_block) @ int_lines vs"
    unfolding main_flat using convert_words_shape by blast
  then have "snd (main input out) = out @ header_block @ int_lines vs \<and> CHR ''#'' \<notin> set (int_lines vs)"
    using int_lines_no_hash by simp
  then have b: "\<exists>vs. snd (main input out) = out @ header_block @ int_lines vs
          \<and> CHR ''#'' \<notin> set (int_lines vs)" by blast
  have e: "main [] out = (None, out @ header_block)" by (simp add: main_flat chunks_of_input_def)
  from h b e show ?thesis by blast
qed




text \<open>
  Claim C5, as stated, fails: whitespace at the start of a line is stripped too.  For the
  line \<^verbatim>\<open>" 1234567A"\<close> the program converts the single piece \<^verbatim>\<open>1234567A\<close>, whereas the
  pieces of the line stripped at its end only are \<^verbatim>\<open>" 1234567"\<close> and \<^verbatim>\<open>A\<close>, which
  \<^verbatim>\<open>int\<close> would turn into two other integers.
\<close>

theorem leading_whitespace_is_stripped:
  "split_by_n (strip '' 1234567A\<newline>'') 8 = Inr [''1234567A'']
   \<and> split_by_n (strip_trailing '' 1234567A\<newline>'') 8 = Inr ['' 1234567'', ''A'']
   \<and> main ['' 1234567A\<newline>''] [] = (None, header_block @ ''305419898\<newline>'')
   \<and> convert_words ['' 1234567'', ''A''] header_block = (None, header_block @ ''19088743\<newline>10\<newline>'')"
  by code_simp

text \<open>
  Claim C5, amended.  Every line is its stripped form between a run of whitespace before
  it and a run of whitespace after it, and the stripped form neither starts nor ends with
  whitespace: the whitespace at both ends is removed, whitespace inside is kept.  The
  pieces converted for a line are those of its stripped form, and the run is the same as
  on the stripped line.
\<close>

theorem strip_removes_both_ends:
  "(\<exists>a b. line = a @ strip line @ b \<and> list_all isspace a \<and> list_all isspace b)
   \<and> (strip line = [] \<or> (\<not> isspace (hd (strip line)) \<and> \<not> isspace (last (strip line))))
   \<and> split_by_n (strip line) 8 = Inr (chunks_of_line line)
   \<and> concat (chunks_of_line line) = strip line
   \<and> main (pre @ line # post) out =
       convert_words (chunks_of_input pre @ chunks_of_line line @ chunks_of_input post)
         (out @ header_block)
   \<and> main (pre @ line # post) out = main (pre @ strip line # post) out"
proof -
  have c: "concat (chunks_of_line line) = strip line"
    using chunks_of_line_eq by (rule split_by_8_concat)
  have m: "main (pre @ l # post) out =
       convert_words (chunks_of_input pre @ chunks_of_line l @ chunks_of_input post)
         (out @ header_block)" for l
    by (simp add: main_flat chunks_of_input_append chunks_of_input_Cons)
  have "main (pre @ line # post) out = main (pre @ strip line # post) out"
    by (simp only: m chunks_of_line_strip)
  with strip_decompose[of line] strip_ends[of line] chunks_of_line_eq[of line] c m[of line]
  show ?thesis by blast
qed

theorem strip_removes_both_ends_witness:
  "strip '' 12 34 \<newline>'' = ''12 34''
   \<and> split_by_n (strip '' 12 34 \<newline>'') 8 = Inr (chunks_of_line '' 12 34 \<newline>'')
   \<and> chunks_of_line '' 12 34 \<newline>'' = [''12 34'']
   \<and> main ([] @ '' 12 34 \<newline>'' # []) [] = main ([] @ strip '' 12 34 \<newline>'' # []) []
   \<and> main ['' 12 34 \<newline>''] [] = (Some (InvalidLiteral ''12 34''), header_block)"
proof -
  have a: "strip '' 12 34 \<newline>'' = ''12 34''" by code_simp
  have b: "chunks_of_line '' 12 34 \<newline>'' = [''12 34'']" by code_simp
  have c: "main ['' 12 34 \<newline>''] [] = (Some (InvalidLiteral ''12 34''), header_block)" by code_simp
  note t = strip_removes_both_ends[of "'' 12 34 \<newline>''" "[]" "[]" "[]"]
  from t have d: "split_by_n (strip '' 12 34 \<newline>'') 8 = Inr (chunks_of_line '' 12 34 \<newline>'')"
    by blast
  from t have e: "main ([] @ '' 12 34 \<newline>'' # []) [] = main ([] @ strip '' 12 34 \<newline>'' # []) []"
    by blast
  show ?thesis by (intro conjI a b c d e)
qed


text \<open>
  Claim C6.  When the conversion of a piece raises, after pieces that converted, \<^verbatim>\<open>main\<close>
  ends with that exception: nothing catches it, the sink holds exactly what had been
  written before that piece (the header and the earlier integers) and nothing of the
  later pieces, and the script ends with a status other than 0.
\<close>

theorem parse_failure_aborts_run:
  assumes "chunks_of_input input = ws1 @ w # ws2"
    and "map py_int16 ws1 = map Inr vs"
    and "py_int16 w = Inl e"
  shows "main input out = (Some e, out @ header_block @ int_lines vs)
    \<and> convert_words ws1 (out @ header_block) = (None, out @ header_block @ int_lines vs)
    \<and> script input = (1, header_block @ int_lines vs)
    \<and> fst (script input) \<noteq> 0"
proof -
  have "convert_words (ws1 @ w # ws2) (o' @ header_block) = (Some e, (o' @ header_block) @ int_lines vs)"
    for o'
    using assms(2,3) by (rule convert_words_fail)
  then have m: "main input o' = (Some e, o' @ header_block @ int_lines vs)" for o'
    by (simp add: main_flat assms(1))
  have "convert_words ws1 (out @ header_block) = (None, (out @ header_block) @ int_lines vs)"
    using assms(2) by (rule convert_words_values)
  then have p: "convert_words ws1 (out @ header_block) = (None, out @ header_block @ int_lines vs)"
    by simp
  have s: "script input = (1, header_block @ int_lines vs)" by (simp add: script_def m[of "[]"])
  from m[of out] p s show ?thesis by simp
qed

theorem parse_failure_aborts_run_witness:
  "chunks_of_input [''FF01\<newline>'', ''0123456789zz\<newline>'', ''0A\<newline>''] =
     [''FF01'', ''01234567''] @ ''89zz'' # [''0A'']
   \<and> map py_int16 [''FF01'', ''01234567''] = map Inr [65281, 19088743]
   \<and> py_int16 ''89zz'' = Inl (InvalidLiteral ''89zz'')
   \<and> main [''FF01\<newline>'', ''0123456789zz\<newline>'', ''0A\<newline>''] [] =
        (Some (InvalidLiteral ''89zz''), header_block @ ''65281\<newline>19088743\<newline>'')
   \<and> script [''FF01\<newline>'', ''0123456789zz\<newline>'', ''0A\<newline>''] =
        (1, header_block @ ''65281\<newline>19088743\<newline>'')"
proof -
  have c: "chunks_of_input [''FF01\<newline>'', ''0123456789zz\<newline>'', ''0A\<newline>''] =
     [''FF01'', ''01234567''] @ ''89zz'' # [''0A'']" by code_simp
  have v: "map py_int16 [''FF01'', ''01234567''] = map Inr [65281, 19088743]" by code_simp
  have e: "py_int16 ''89zz'' = Inl (InvalidLiteral ''89zz'')" by code_simp
  have i: "int_lines [65281, 19088743] = ''65281\<newline>19088743\<newline>''" by code_simp
  note t = parse_failure_aborts_run[OF c v e, of "[]"]
  from t have 1: "main [''FF01\<newline>'', ''0123456789zz\<newline>'', ''0A\<newline>''] [] =
        (Some (InvalidLiteral ''89zz''), header_block @ ''65281\<newline>19088743\<newline>'')"
    by (simp add: i)
  from t have 2: "script [''FF01\<newline>'', ''0123456789zz\<newline>'', ''0A\<newline>''] =
        (1, header_block @ ''65281\<newline>19088743\<newline>'')"
    by (simp add: i)
  show ?thesis by (intro conjI c v e 1 2)
qed

text \<open>
  Claim C7.  On the empty input \<^verbatim>\<open>main\<close> raises nothing and writes the header block and
  nothing else.  A line that is empty once stripped has no pieces: it raises nothing,
  writes nothing, and the run is the same as without that line.
\<close>

theorem empty_input_and_blank_lines:
  "main [] out = (None, out @ header_block)
   \<and> script [] = (0, header_block)
   \<and> (strip line = [] \<longrightarrow>
        split_by_n (strip line) 8 = Inr []
        \<and> chunks_of_line line = []
        \<and> convert_lines [line] out = (None, out)
        \<and> main [line] out = (None, out @ header_block)
        \<and> main (pre @ line # post) out = main (pre @ post) out)"
proof -
  have e: "main [] o' = (None, o' @ header_block)" for o'
    by (simp add: main_flat chunks_of_input_def)
  have s: "script [] = (0, header_block)" by (simp add: script_def e)
  have b: "split_by_n (strip line) 8 = Inr []
        \<and> chunks_of_line line = []
        \<and> convert_lines [line] out = (None, out)
        \<and> main [line] out = (None, out @ header_block)
        \<and> main (pre @ line # post) out = main (pre @ post) out" if n: "strip line = []"
  proof -
    have 1: "split_by_n (strip line) 8 = Inr []" by (simp add: n split_by_8_empty)
    have 2: "chunks_of_line line = []" by (simp add: chunks_of_line_def 1)
    have 3: "convert_lines [line] out = (None, out)" by (simp add: 1)
    have 4: "main [line] out = (None, out @ header_block)"
      by (simp add: main_flat chunks_of_input_def 2)
    have 5: "main (pre @ line # post) out = main (pre @ post) out"
      by (simp add: main_flat chunks_of_input_append chunks_of_input_Cons 2)
    from 1 2 3 4 5 show ?thesis by blast
  qed
  from e[of out] s b show ?thesis by blast
qed

theorem empty_input_and_blank_lines_witness:
  "strip ''  \<newline>'' = []
   \<and> split_by_n (strip ''  \<newline>'') 8 = Inr []
   \<and> main [''  \<newline>''] [] = (None, header_block)
   \<and> main ([''0A\<newline>''] @ ''  \<newline>'' # [''FF\<newline>'']) [] = main ([''0A\<newline>''] @ [''FF\<newline>'']) []
   \<and> main [''0A\<newline>'', ''  \<newline>'', ''FF\<newline>''] [] = (None, header_block @ ''10\<newline>255\<newline>'')
   \<and> main [] [] = (None, header_block)"
proof -
  have n: "strip ''  \<newline>'' = []" by code_simp
  have m: "main [''0A\<newline>'', ''  \<newline>'', ''FF\<newline>''] [] = (None, header_block @ ''10\<newline>255\<newline>'')"
    by code_simp
  note t = empty_input_and_blank_lines[of "[]" "''  \<newline>''" "[''0A\<newline>'']" "[''FF\<newline>'']"]
  from t n have 1: "split_by_n (strip ''  \<newline>'') 8 = Inr []" by blast
  from t n have 2: "main [''  \<newline>''] [] = (None, [] @ header_block)" by blast
  from t n have 3: "main ([''0A\<newline>''] @ ''  \<newline>'' # [''FF\<newline>'']) [] = main ([''0A\<newline>''] @ [''FF\<newline>'']) []"
    by blast
  from t have 4: "main [] [] = (None, [] @ header_block)" by blast
  from n 1 2 3 m 4 show ?thesis by simp
qed

text \<open>
  Claim C8.  A piece produced by \<^verbatim>\<open>split_by_n(s, 8)\<close> that consists of hexadecimal digits
  converts to an integer \<open>v\<close> with \<open>0 \<le> v < 2\<^sup>3\<^sup>2\<close>, and the line written for it is the
  decimal text of \<open>v\<close>: decimal digits only, reading back as \<open>v\<close>, and not starting with a
  zero unless it is the single digit \<^verbatim>\<open>0\<close>.
\<close>

theorem emitted_integer_is_uint32:
  assumes "split_by_n s 8 = Inr ws" and "w \<in> set ws" and "list_all is_hex_digit w"
  shows "\<exists>v. py_int16 w = Inr v \<and> 0 \<le> v \<and> v < 2 ^ 32
      \<and> convert_words [w] out = (None, out @ str_int v @ [CHR 0x0A])
      \<and> list_all is_dec_digit (str_int v)
      \<and> dec_value (str_int v) = v
      \<and> (str_int v = ''0'' \<or> hd (str_int v) \<noteq> CHR ''0'')"
proof -
  define v where "v = hex_value w"
  from assms(1,2) have n: "w \<noteq> [] \<and> length w \<le> 8" by (rule split_by_8_chunk)
  with assms(3) have p: "py_int16 w = Inr v" unfolding v_def by (intro py_int16_hex) simp_all
  have lo: "0 \<le> v" and "v < 16 ^ length w" using hex_value_bounds[of w] by (simp_all add: v_def)
  moreover have "(16::int) ^ length w \<le> 16 ^ 8" using n by (intro power_increasing) simp_all
  ultimately have hi: "v < 2 ^ 32" by simp
  have c: "convert_words [w] out = (None, out @ str_int v @ [CHR 0x0A])"
    by (simp add: p print_to_def)
  from p lo hi c str_int_nonneg[OF lo] show ?thesis by blast
qed

theorem emitted_integer_is_uint32_witness:
  "split_by_n ''FFFFFFFF000000000'' 8 = Inr [''FFFFFFFF'', ''00000000'', ''0'']
   \<and> ''FFFFFFFF'' \<in> set [''FFFFFFFF'', ''00000000'', ''0'']
   \<and> list_all is_hex_digit ''FFFFFFFF''
   \<and> py_int16 ''FFFFFFFF'' = Inr 4294967295
   \<and> str_int 4294967295 = ''4294967295''
   \<and> py_int16 ''00000000'' = Inr 0
   \<and> str_int 0 = ''0''
   \<and> (\<exists>v. py_int16 ''FFFFFFFF'' = Inr v \<and> 0 \<le> v \<and> v < 2 ^ 32
      \<and> convert_words [''FFFFFFFF''] [] = (None, [] @ str_int v @ [CHR 0x0A])
      \<and> list_all is_dec_digit (str_int v)
      \<and> dec_value (str_int v) = v
      \<and> (str_int v = ''0'' \<or> hd (str_int v) \<noteq> CHR ''0''))"
proof -
  have a: "split_by_n ''FFFFFFFF000000000'' 8 = Inr [''FFFFFFFF'', ''00000000'', ''0'']" by code_simp
  have b: "''FFFFFFFF'' \<in> set [''FFFFFFFF'', ''00000000'', ''0'']" by simp
  have c: "list_all is_hex_digit ''FFFFFFFF''" by code_simp
  have d: "py_int16 ''FFFFFFFF'' = Inr 4294967295" by code_simp
  have e: "str_int 4294967295 = ''4294967295''" by code_simp
  have f: "py_int16 ''00000000'' = Inr 0" by code_simp
  have g: "str_int 0 = ''0''" by code_simp
  show ?thesis by (intro conjI a b c d e f g emitted_integer_is_uint32[OF a b c])
qed

text \<open>
  Claim C10.  For every string \<open>s\<close>, \<^verbatim>\<open>split_by_n(s, 8)\<close> returns pieces whose
  concatenation, in order, is \<open>s\<close>; every piece but the last has exactly 8 characters; and
  when \<open>s\<close> is not empty there is a last piece, of 1 to 8 characters, and no piece is empty.
\<close>

theorem split_by_n_partitions:
  "\<exists>ws. split_by_n s 8 = Inr ws \<and> concat ws = s
      \<and> (\<forall>w \<in> set (butlast ws). length w = 8)
      \<and> (s \<noteq> [] \<longrightarrow> ws \<noteq> [] \<and> 1 \<le> length (last ws) \<and> length (last ws) \<le> 8
            \<and> (\<forall>w \<in> set ws. w \<noteq> []))"
proof -
  obtain ws where ws: "split_by_n s 8 = Inr ws" by (simp add: split_by_8)
  have "concat ws = s" using ws by (rule split_by_8_concat)
  moreover have "\<forall>w \<in> set (butlast ws). length w = 8" using ws split_by_8_full by blast
  moreover have "\<forall>w \<in> set ws. w \<noteq> []" using ws split_by_8_chunk by blast
  moreover have "s \<noteq> [] \<longrightarrow> ws \<noteq> [] \<and> 1 \<le> length (last ws) \<and> length (last ws) \<le> 8"
  proof
    assume "s \<noteq> []"
    with ws have ne: "ws \<noteq> []" by (rule split_by_8_nonempty)
    then have "last ws \<in> set ws" by simp
    with ws have "last ws \<noteq> [] \<and> length (last ws) \<le> 8" by (rule split_by_8_chunk)
    with ne show "ws \<noteq> [] \<and> 1 \<le> length (last ws) \<and> length (last ws) \<le> 8"
      by (cases "last ws") simp_all
  qed
  ultimately show ?thesis using ws by blast
qed

theorem split_by_n_partitions_witness:
  "''0123456789abcdefABC'' \<noteq> [] \<and>
   split_by_n ''0123456789abcdefABC'' 8 = Inr [''01234567'', ''89abcdef'', ''ABC''] \<and>
   concat [''01234567'', ''89abcdef'', ''ABC''] = ''0123456789abcdefABC'' \<and>
   (\<exists>ws. split_by_n ''0123456789abcdefABC'' 8 = Inr ws \<and> concat ws = ''0123456789abcdefABC''
      \<and> (\<forall>w \<in> set (butlast ws). length w = 8)
      \<and> ws \<noteq> [] \<and> 1 \<le> length (last ws) \<and> length (last ws) \<le> 8
      \<and> (\<forall>w \<in> set ws. w \<noteq> []))"
proof -
  have e: "split_by_n ''0123456789abcdefABC'' 8 = Inr [''01234567'', ''89abcdef'', ''ABC'']"
    by code_simp
  show ?thesis using split_by_n_partitions[of "''0123456789abcdefABC''"] e by simp
qed

end
